theory Spec2Isabelle
  imports Main "HOL-Library.AList"
begin

section \<open>The data model\<close>

text \<open>
  A JavaScript value as far as the program looks at one: the column values that the
  decoder's JSON carries, and \<^verbatim>\<open>undefined\<close>, which an array read past its end gives.
\<close>

datatype jsvalue = JUndefined | JNull | JBool bool | JNum int | JStr string

text \<open>
  An object with string keys, as the list of its entries: \<^verbatim>\<open>Object.fromEntries\<close> adds the
  pairs from left to right, and a key that comes again keeps its place and takes the new
  value. A key is a property of the object exactly when it is the first component of an
  entry, whatever its value (also \<^verbatim>\<open>undefined\<close>).
\<close>

type_synonym object = "(string \<times> jsvalue) list"

definition fromEntries :: "(string \<times> jsvalue) list \<Rightarrow> object" where
  "fromEntries pairs = foldl (\<lambda>obj (k, v). AList.update k v obj) [] pairs"

definition keys_of :: "object \<Rightarrow> string set" where
  "keys_of obj = set (map fst obj)"

text \<open>\<^verbatim>\<open>SubjectChangeEvent\<close> of types.ts: three shapes, told apart by \<^verbatim>\<open>event\<close>.\<close>

datatype event_kind = Insert | Update | Delete

datatype SubjectChangeEvent =
    InsertEvent (table: string) (row: object)
  | UpdateEvent (table: string) (row: object)
  | DeleteEvent (table: string) (identity: object)

fun event :: "SubjectChangeEvent \<Rightarrow> event_kind" where
  "event (InsertEvent t r) = Insert"
| "event (UpdateEvent t r) = Update"
| "event (DeleteEvent t i) = Delete"

section \<open>walSubject.ts: decoding\<close>

text \<open>The raw records of wal2json (\<^verbatim>\<open>Keys\<close>, \<^verbatim>\<open>WALChange\<close>, \<^verbatim>\<open>Payload\<close>).\<close>

record Keys =
  keynames :: "string list"
  keytypes :: "string list"
  keyvalues :: "jsvalue list"

text \<open>
  The arguments are \<^verbatim>\<open>schema\<close>, \<^verbatim>\<open>table\<close>, then \<^verbatim>\<open>columnnames\<close>, \<^verbatim>\<open>columntypes\<close>,
  \<^verbatim>\<open>columnvalues\<close> and \<^verbatim>\<open>oldkeys\<close> where the kind has them. \<open>WALOtherChange\<close> is a record
  whose \<^verbatim>\<open>kind\<close> is none of the three strings the source compares it with.
\<close>

datatype WALChange =
    WALInsertChange string string "string list" "string list" "jsvalue list"
  | WALUpdateChange string string "string list" "string list" "jsvalue list" Keys
  | WALDeleteChange string string Keys
  | WALOtherChange string string

record Payload =
  lsn :: string
  data :: "WALChange list"

text \<open>
  The arguments of \<^verbatim>\<open>getKyselyChanges\<close> that the code reads: \<^verbatim>\<open>onlyIncludeTables\<close>,
  \<^verbatim>\<open>primaryKeyMap\<close> (undefined, or an object from table names to column lists) and, of
  \<^verbatim>\<open>options\<close>, \<^verbatim>\<open>assumeSchema\<close> and the slot id (the caller's or the random one).
\<close>

record config =
  onlyIncludeTables :: "string list"
  primaryKeyMap :: "(string \<times> string list) list option"
  assumeSchema :: "string option"
  slotId :: string

definition slotName :: "config \<Rightarrow> string" where
  "slotName cfg = ''app_slot_'' @ slotId cfg"

definition schema :: "config \<Rightarrow> string" where
  "schema cfg = (case assumeSchema cfg of None \<Rightarrow> ''public'' | Some s \<Rightarrow> s)"

text \<open>\<^verbatim>\<open>table.includes(".")\<close>.\<close>

definition includes_dot :: "string \<Rightarrow> bool" where
  "includes_dot t = (CHR ''.'' \<in> set t)"

definition isUsingMultipleSchemas :: "config \<Rightarrow> bool" where
  "isUsingMultipleSchemas cfg = list_ex includes_dot (onlyIncludeTables cfg)"

text \<open>
  \<^verbatim>\<open>!isUsingMultipleSchemas ? `${change.table}` : `${schema}.${change.table}`\<close>, where
  \<^verbatim>\<open>schema\<close> is the constant of \<^verbatim>\<open>getKyselyChanges\<close>; the record's own \<^verbatim>\<open>change.schema\<close> is
  not read.
\<close>

definition tableKey :: "config \<Rightarrow> string \<Rightarrow> string" where
  "tableKey cfg change_table =
     (if \<not> isUsingMultipleSchemas cfg then change_table
      else schema cfg @ ''.'' @ change_table)"

text \<open>An array read \<^verbatim>\<open>values[index]\<close>: \<^verbatim>\<open>undefined\<close> past the end.\<close>

definition at_index :: "jsvalue list \<Rightarrow> nat \<Rightarrow> jsvalue" where
  "at_index vs i = (if i < length vs then vs ! i else JUndefined)"

text \<open>\<^verbatim>\<open>names.map((name, index) => [name, values[index]])\<close>.\<close>

definition pairs_of :: "string list \<Rightarrow> jsvalue list \<Rightarrow> (string \<times> jsvalue) list" where
  "pairs_of names vs = map (\<lambda>(index, name). (name, at_index vs index)) (enumerate 0 names)"

text \<open>
  The body of the inner loop of the change handler: the events that one raw record sends
  to \<^verbatim>\<open>subject.next\<close>. \<^verbatim>\<open>primaryKeyMap\<close> is not read.
\<close>

fun events_of_change :: "config \<Rightarrow> WALChange \<Rightarrow> SubjectChangeEvent list" where
  "events_of_change cfg (WALInsertChange change_schema change_table columnnames columntypes columnvalues) =
     [InsertEvent (tableKey cfg change_table) (fromEntries (pairs_of columnnames columnvalues))]"
| "events_of_change cfg (WALUpdateChange change_schema change_table columnnames columntypes columnvalues oldkeys) =
     [UpdateEvent (tableKey cfg change_table) (fromEntries (pairs_of columnnames columnvalues))]"
| "events_of_change cfg (WALDeleteChange change_schema change_table oldkeys) =
     [DeleteEvent (tableKey cfg change_table)
        (fromEntries (pairs_of (keynames oldkeys) (keyvalues oldkeys)))]"
| "events_of_change cfg (WALOtherChange change_schema change_table) = []"

text \<open>The change handler given to \<^verbatim>\<open>getChanges\<close>: both loops.\<close>

definition changeHandler :: "config \<Rightarrow> Payload list \<Rightarrow> SubjectChangeEvent list" where
  "changeHandler cfg payloads =
     concat (map (\<lambda>payload. concat (map (events_of_change cfg) (data payload))) payloads)"

text \<open>
  The identity columns as the specification declares them (its identity policy): the
  list that \<^verbatim>\<open>primaryKeyMap\<close> gives for the table, and the single column \<^verbatim>\<open>id\<close> when the
  map is undefined or omits the table. The source has no function for it; this one is
  what the delivered delete events are compared with.
\<close>

definition declared_identity :: "(string \<times> string list) list option \<Rightarrow> string \<Rightarrow> string list" where
  "declared_identity pkm t =
     (case pkm of
        None \<Rightarrow> [''id'']
      | Some m \<Rightarrow> (case map_of m t of None \<Rightarrow> [''id''] | Some cols \<Rightarrow> cols))"

section \<open>walSubject.ts: polling\<close>

text \<open>
  What a \<^verbatim>\<open>catch\<close> can receive: an \<^verbatim>\<open>Error\<close> with its \<^verbatim>\<open>code\<close> property if it has one
  (the driver's errors carry the SQLSTATE there), the \<^verbatim>\<open>Error\<close> that \<^verbatim>\<open>invariant\<close> throws,
  the \<^verbatim>\<open>new Error\<close> of \<^verbatim>\<open>createSlot\<close> for a missing plugin, or a value that is not an
  \<^verbatim>\<open>Error\<close>.
\<close>

datatype thrown = JsError "string option" | InvariantFailed | PluginMissing | NotAnError

fun code :: "thrown \<Rightarrow> string option" where
  "code (JsError c) = c"
| "code e = None"

definition instanceof_Error :: "thrown \<Rightarrow> bool" where
  "instanceof_Error e = (e \<noteq> NotAnError)"

text \<open>The three statements sent through \<^verbatim>\<open>client.query\<close>, with their parameters.\<close>

datatype statement =
    CreateSlot string
  | DropSlot string
  | GetChanges string string

text \<open>
  A row of \<^verbatim>\<open>pg_logical_slot_get_changes\<close>; \<open>None\<close> is a \<^verbatim>\<open>data\<close> string on which
  \<^verbatim>\<open>JSON.parse\<close> throws.
\<close>

record lsn_row =
  row_lsn :: string
  row_data :: "WALChange list option"

text \<open>How an awaited \<^verbatim>\<open>client.query\<close> ends.\<close>

datatype response = Rows "lsn_row list" | Throws thrown

definition toLsnData :: "lsn_row \<Rightarrow> thrown + Payload" where
  "toLsnData r =
     (case row_data r of
        None \<Rightarrow> Inl (JsError None)
      | Some d \<Rightarrow> Inr \<lparr>lsn = row_lsn r, data = d\<rparr>)"

text \<open>\<^verbatim>\<open>rows.map(toLsnData)\<close>: the first row that throws ends the map.\<close>

fun map_toLsnData :: "lsn_row list \<Rightarrow> thrown + Payload list" where
  "map_toLsnData [] = Inr []"
| "map_toLsnData (r # rs) =
     (case toLsnData r of
        Inl e \<Rightarrow> Inl e
      | Inr p \<Rightarrow> (case map_toLsnData rs of Inl e \<Rightarrow> Inl e | Inr ps \<Rightarrow> Inr (p # ps)))"

definition join :: "string \<Rightarrow> string list \<Rightarrow> string" where
  "join sep xs = (case xs of [] \<Rightarrow> [] | x # rest \<Rightarrow> foldl (\<lambda>acc y. acc @ sep @ y) x rest)"

definition addTablesString :: "config \<Rightarrow> string" where
  "addTablesString cfg =
     join '','' (map (\<lambda>t. if includes_dot t then t else schema cfg @ ''.'' @ t)
                   (onlyIncludeTables cfg))"

text \<open>
  \<^verbatim>\<open>getChanges\<close> is an async function: it runs until an \<^verbatim>\<open>await\<close>, and goes on when the
  awaited promise settles; in between, other callbacks of the process run (the timers of
  this and of every other stream). A call that is suspended is a \<open>call\<close>: the stream it
  polls for, where it waits (\<open>phase\<close>: for the rows, or in the \<^verbatim>\<open>catch\<close> block for
  \<^verbatim>\<open>createSlot\<close>, holding the caught \<open>e\<close>), and the calls it is nested in (\<open>outer\<close>: for each
  enclosing call, which waits at \<^verbatim>\<open>await getChanges(...)\<close> in its \<^verbatim>\<open>catch\<close> block, the
  \<open>e\<close> it caught, innermost first).
\<close>

datatype phase = AwaitGetChanges | AwaitCreateSlot thrown

record call =
  stream :: nat
  outer :: "thrown list"
  phase :: phase

datatype outcome = Resolved | Rejected thrown

text \<open>
  The process: the module-level variable \<open>currentlyGettingChanges\<close>, which all streams
  created by \<^verbatim>\<open>getKyselyChanges\<close> in the process read and write, the suspended calls,
  and what has been observed: the statements sent per stream, the events given to each
  stream's \<^verbatim>\<open>subject.next\<close>, how the calls made by the timers ended, and the
  \<^verbatim>\<open>console.warn\<close> lines.
\<close>

record world =
  currentlyGettingChanges :: bool
  calls :: "call list"
  requests :: "(nat \<times> statement) list"
  published :: "(nat \<times> SubjectChangeEvent) list"
  settled :: "(nat \<times> outcome) list"
  warnings :: "string list"

definition init_world :: world where
  "init_world =
     \<lparr>currentlyGettingChanges = False, calls = [], requests = [], published = [],
      settled = [], warnings = []\<rparr>"

text \<open>The \<^verbatim>\<open>finally\<close> block.\<close>

definition finally_block :: "world \<Rightarrow> world" where
  "finally_block w = w\<lparr>currentlyGettingChanges := False\<rparr>"

text \<open>
  A call has ended with \<open>out\<close>. With no enclosing call it was made by the timer, and its
  end is recorded. Otherwise the enclosing call goes on after \<^verbatim>\<open>await getChanges(...)\<close>:
  a rejection is thrown on from there, and after a normal return \<^verbatim>\<open>throw e\<close> follows;
  either way its \<^verbatim>\<open>finally\<close> block runs and it ends rejected.
\<close>

fun unwind :: "nat \<Rightarrow> thrown list \<Rightarrow> outcome \<Rightarrow> world \<Rightarrow> world" where
  "unwind sid [] out w = w\<lparr>settled := settled w @ [(sid, out)]\<rparr>"
| "unwind sid (e # enclosing) out w =
     unwind sid enclosing
       (Rejected (case out of Resolved \<Rightarrow> e | Rejected e' \<Rightarrow> e'))
       (finally_block w)"

text \<open>
  A call of \<^verbatim>\<open>getChanges\<close> up to its first \<^verbatim>\<open>await\<close>: the guard returns at once (before
  the \<^verbatim>\<open>try\<close>, so no \<^verbatim>\<open>finally\<close> runs); otherwise the flag is set and the statement sent.
\<close>

definition getChanges :: "(nat \<Rightarrow> config) \<Rightarrow> nat \<Rightarrow> thrown list \<Rightarrow> world \<Rightarrow> world" where
  "getChanges cfgs sid enclosing w =
     (if currentlyGettingChanges w then unwind sid enclosing Resolved w
      else w\<lparr>currentlyGettingChanges := True,
             requests := requests w @
               [(sid, GetChanges (slotName (cfgs sid)) (addTablesString (cfgs sid)))],
             calls := calls w @ [\<lparr>stream = sid, outer = enclosing, phase = AwaitGetChanges\<rparr>]\<rparr>)"

text \<open>
  The \<^verbatim>\<open>catch\<close> block of \<^verbatim>\<open>getChanges\<close> up to \<^verbatim>\<open>await createSlot(...)\<close>, whose first
  statement is sent at once.
\<close>

definition getChanges_catch :: "(nat \<Rightarrow> config) \<Rightarrow> call \<Rightarrow> thrown \<Rightarrow> world \<Rightarrow> world" where
  "getChanges_catch cfgs c e w =
     (if \<not> instanceof_Error e
      then unwind (stream c) (outer c) (Rejected InvariantFailed) (finally_block w)
      else if code e = Some ''42704''
      then w\<lparr>warnings := warnings w @ [''Replication slot went away?''],
             requests := requests w @ [(stream c, CreateSlot (slotName (cfgs (stream c))))],
             calls := calls w @ [c\<lparr>phase := AwaitCreateSlot e\<rparr>]\<rparr>
      else unwind (stream c) (outer c) (Rejected e) (finally_block w))"

text \<open>What \<^verbatim>\<open>createSlot\<close> throws from its own \<^verbatim>\<open>catch\<close> block.\<close>

definition createSlot_catch :: "thrown \<Rightarrow> thrown" where
  "createSlot_catch e =
     (if \<not> instanceof_Error e then InvariantFailed
      else if code e = Some ''58P01'' then PluginMissing
      else e)"

definition publish :: "nat \<Rightarrow> SubjectChangeEvent list \<Rightarrow> world \<Rightarrow> world" where
  "publish sid evs w = w\<lparr>published := published w @ map (\<lambda>ev. (sid, ev)) evs\<rparr>"

text \<open>
  The suspended call \<open>c\<close> (already taken out of \<open>calls\<close>) goes on with the response to
  the statement it waits for.
\<close>

definition resume :: "(nat \<Rightarrow> config) \<Rightarrow> call \<Rightarrow> response \<Rightarrow> world \<Rightarrow> world" where
  "resume cfgs c resp w =
     (case phase c of
        AwaitGetChanges \<Rightarrow>
          (case resp of
             Rows rows \<Rightarrow>
               (case map_toLsnData rows of
                  Inr changes \<Rightarrow>
                    unwind (stream c) (outer c) Resolved
                      (finally_block (publish (stream c) (changeHandler (cfgs (stream c)) changes) w))
                | Inl e \<Rightarrow> getChanges_catch cfgs c e w)
           | Throws e \<Rightarrow> getChanges_catch cfgs c e w)
      | AwaitCreateSlot e \<Rightarrow>
          (case resp of
             Rows rows \<Rightarrow>
               getChanges cfgs (stream c) (e # outer c)
                 (w\<lparr>warnings := warnings w @
                     [''Recreated slot; retrying getChanges (no further output implies success)'']\<rparr>)
           | Throws e' \<Rightarrow>
               unwind (stream c) (outer c) (Rejected (createSlot_catch e')) (finally_block w)))"

text \<open>
  The events of the process: the timer of stream \<open>sid\<close> fires and calls \<^verbatim>\<open>getChanges\<close>;
  the statement that the \<open>k\<close>-th suspended call waits for is answered.
\<close>

datatype poll_event = Tick nat | Response nat response

fun poll_step :: "(nat \<Rightarrow> config) \<Rightarrow> poll_event \<Rightarrow> world \<Rightarrow> world option" where
  "poll_step cfgs (Tick sid) w = Some (getChanges cfgs sid [] w)"
| "poll_step cfgs (Response k resp) w =
     (if k < length (calls w)
      then Some (resume cfgs (calls w ! k) resp
                   (w\<lparr>calls := take k (calls w) @ drop (Suc k) (calls w)\<rparr>))
      else None)"

fun poll_run :: "(nat \<Rightarrow> config) \<Rightarrow> poll_event list \<Rightarrow> world \<Rightarrow> world option" where
  "poll_run cfgs [] w = Some w"
| "poll_run cfgs (e # es) w =
     (case poll_step cfgs e w of None \<Rightarrow> None | Some w' \<Rightarrow> poll_run cfgs es w')"

text \<open>
  What the guard is for: while the flag is set, exactly one call is suspended, and it is not
  nested in another; while it is not set, none is.
\<close>

definition guard_held :: "world \<Rightarrow> bool" where
  "guard_held w \<longleftrightarrow>
     (if currentlyGettingChanges w
      then length (calls w) = 1 \<and> outer (hd (calls w)) = []
      else calls w = [])"

section \<open>walSubject.ts: teardown\<close>

text \<open>
  What \<^verbatim>\<open>teardown\<close> acts on: the interval timer, the slot in the database's catalog, the
  client held from the pool, the subject.
\<close>

record resources =
  intervalActive :: bool
  slotExists :: bool
  clientReleased :: bool
  subjectCompleted :: bool

text \<open>
  The database's answer to \<^verbatim>\<open>select pg_catalog.pg_drop_replication_slot($1)\<close>: the slot is
  dropped, or the statement fails with SQLSTATE 42704 because there is no such slot.
\<close>

definition pg_drop_replication_slot :: "resources \<Rightarrow> thrown + resources" where
  "pg_drop_replication_slot st =
     (if slotExists st then Inr (st\<lparr>slotExists := False\<rparr>) else Inl (JsError (Some ''42704'')))"

text \<open>\<^verbatim>\<open>dropSlot\<close>: the \<^verbatim>\<open>catch\<close> block is empty.\<close>

definition dropSlot :: "resources \<Rightarrow> resources" where
  "dropSlot st = (case pg_drop_replication_slot st of Inl e \<Rightarrow> st | Inr st' \<Rightarrow> st')"

text \<open>
  \<^verbatim>\<open>client.release()\<close> of the driver's pool: a client that has been released already throws
  an \<^verbatim>\<open>Error\<close> ("Release called on client which has already been released to the pool.").
\<close>

definition client_release :: "resources \<Rightarrow> thrown + resources" where
  "client_release st =
     (if clientReleased st then Inl (JsError None) else Inr (st\<lparr>clientReleased := True\<rparr>))"

text \<open>
  \<^verbatim>\<open>teardown\<close>: \<^verbatim>\<open>clearInterval\<close>, \<^verbatim>\<open>await dropSlot\<close>, \<^verbatim>\<open>await client.release()\<close>,
  \<^verbatim>\<open>subject.complete()\<close>. Nothing catches what \<^verbatim>\<open>release\<close> throws.
\<close>

definition teardown :: "resources \<Rightarrow> (thrown + unit) \<times> resources" where
  "teardown st =
     (let st1 = st\<lparr>intervalActive := False\<rparr>;
          st2 = dropSlot st1
      in case client_release st2 of
           Inl e \<Rightarrow> (Inl e, st2)
         | Inr st3 \<Rightarrow> (Inr (), st3\<lparr>subjectCompleted := True\<rparr>))"

section \<open>observeQuery: the reactive query runner\<close>

text \<open>
  \<^verbatim>\<open>observeQuery(kyselyChanges, query, handlerMap)\<close> returns
  \<^verbatim>\<open>new Observable((subscriber) => { ... })\<close>. The function given to the constructor runs
  once per \<^verbatim>\<open>subscribe\<close>; its three \<^verbatim>\<open>let\<close> variables are the state of one runner.
  JavaScript runs every callback to its end before the next one starts, so the runner is a
  state machine whose transitions are the callbacks of the source:
  the observer's \<^verbatim>\<open>next\<close> up to its \<^verbatim>\<open>await\<close>, the continuation after the \<^verbatim>\<open>await\<close>,
  the \<^verbatim>\<open>then\<close> and the \<^verbatim>\<open>catch\<close> callback of the query's promise, the observer's
  \<^verbatim>\<open>complete\<close> and \<^verbatim>\<open>error\<close>, and the teardown function.
\<close>

text \<open>
  \<^verbatim>\<open>handlerMap[change.table]\<close> is an object or undefined (\<open>None\<close>); of the object the
  model keeps which of \<^verbatim>\<open>insert\<close>, \<^verbatim>\<open>update\<close>, \<^verbatim>\<open>delete\<close> are defined. What a handler
  answers is the environment's choice: it arrives with the event that resumes the
  \<^verbatim>\<open>await\<close>.
\<close>

type_synonym handler_map = "string \<Rightarrow> (event_kind \<Rightarrow> bool) option"

datatype 'r notification = Next 'r | Error | Complete

text \<open>
  The variables of one subscription. \<open>runningQuery\<close> and \<open>queueNextQuery\<close> are only ever
  compared with \<^verbatim>\<open>undefined\<close> in the source (and \<open>queueNextQuery\<close> only ever holds
  \<^verbatim>\<open>runQueryAndCallNextIfExists\<close>), so each is the boolean "is not undefined".
  The remaining fields observe the run:
  \<open>executing\<close> counts the promises returned by \<^verbatim>\<open>query()\<close> that have not settled,
  \<open>awaiting\<close> the invocations of \<^verbatim>\<open>next\<close> suspended at \<^verbatim>\<open>await maybeHandler(...)\<close>,
  \<open>queryCalls\<close> and \<open>handlerCalls\<close> the calls made so far, \<open>delivered\<close> what the
  subscriber has received; \<open>closed\<close> is rxjs's \<^verbatim>\<open>subscriber.closed\<close> (after it, \<^verbatim>\<open>next\<close>,
  \<^verbatim>\<open>error\<close> and \<^verbatim>\<open>complete\<close> of the subscriber do nothing) and \<open>attached\<close> says that
  \<open>subjectSubscription\<close> is still registered with the subject.
\<close>

record 'r runner =
  runningQuery :: bool
  queueNextQuery :: bool
  lastResult :: "'r option"
  executing :: nat
  awaiting :: nat
  queryCalls :: nat
  handlerCalls :: nat
  delivered :: "'r notification list"
  closed :: bool
  attached :: bool

text \<open>
  \<^verbatim>\<open>runningQuery = query().then(...).catch(...); return runningQuery\<close>: the call of
  \<^verbatim>\<open>query()\<close> starts one execution.
\<close>

definition runQueryAndCallNextIfExists :: "'r runner \<Rightarrow> 'r runner" where
  "runQueryAndCallNextIfExists s =
     s\<lparr>runningQuery := True, queryCalls := Suc (queryCalls s), executing := Suc (executing s)\<rparr>"

text \<open>The subscriber's three methods, as rxjs defines them on a \<^verbatim>\<open>Subscriber\<close>.\<close>

definition subscriber_next :: "'r \<Rightarrow> 'r runner \<Rightarrow> 'r runner" where
  "subscriber_next r s = (if closed s then s else s\<lparr>delivered := delivered s @ [Next r]\<rparr>)"

definition subscriber_error :: "'r runner \<Rightarrow> 'r runner" where
  "subscriber_error s =
     (if closed s then s
      else s\<lparr>delivered := delivered s @ [Error], closed := True, attached := False\<rparr>)"

definition subscriber_complete :: "'r runner \<Rightarrow> 'r runner" where
  "subscriber_complete s =
     (if closed s then s
      else s\<lparr>delivered := delivered s @ [Complete], closed := True, attached := False\<rparr>)"

text \<open>
  The body of the function given to \<^verbatim>\<open>new Observable\<close>, on a subject that is still open:
  the three variables are declared, \<^verbatim>\<open>runQueryAndCallNextIfExists()\<close> is called, the
  observer is registered with the subject.
\<close>

definition subscribe :: "'r runner" where
  "subscribe =
     runQueryAndCallNextIfExists
       \<lparr>runningQuery = False, queueNextQuery = False, lastResult = None,
        executing = 0, awaiting = 0, queryCalls = 0, handlerCalls = 0,
        delivered = [], closed = False, attached = True\<rparr>"

text \<open>
  The observer's \<^verbatim>\<open>next\<close> up to its first suspension. Without a handler for the table
  and the event, \<^verbatim>\<open>shouldReRunQuery\<close> stays false and the function ends; with one, the
  handler is called and the function is suspended at the \<^verbatim>\<open>await\<close>. A subject calls only
  the observers registered with it.
\<close>

definition on_change :: "handler_map \<Rightarrow> SubjectChangeEvent \<Rightarrow> 'r runner \<Rightarrow> 'r runner" where
  "on_change handlerMap c s =
     (if \<not> attached s then s
      else case handlerMap (table c) of
        None \<Rightarrow> s
      | Some valueAtHandlerMapForTable \<Rightarrow>
          if valueAtHandlerMapForTable (event c)
          then s\<lparr>handlerCalls := Suc (handlerCalls s), awaiting := Suc (awaiting s)\<rparr>
          else s)"

text \<open>
  The rest of \<^verbatim>\<open>next\<close>, after \<^verbatim>\<open>await\<close> has produced \<open>handlerResult\<close>: the three
  branches under \<^verbatim>\<open>if (shouldReRunQuery)\<close>.
\<close>

definition after_handler :: "bool \<Rightarrow> 'r runner \<Rightarrow> 'r runner" where
  "after_handler shouldReRunQuery s =
     (if shouldReRunQuery then
        if \<not> runningQuery s \<and> \<not> queueNextQuery s then runQueryAndCallNextIfExists s
        else if runningQuery s \<and> \<not> queueNextQuery s then s\<lparr>queueNextQuery := True\<rparr>
        else s
      else s)"

text \<open>The \<^verbatim>\<open>then\<close> callback of \<^verbatim>\<open>query()\<close>.\<close>

definition query_then :: "'r \<Rightarrow> 'r runner \<Rightarrow> 'r runner" where
  "query_then result s =
     (let s1 = s\<lparr>lastResult := Some result, runningQuery := False\<rparr>;
          s2 = subscriber_next result s1
      in if queueNextQuery s2
         then runQueryAndCallNextIfExists (s2\<lparr>queueNextQuery := False\<rparr>)
         else s2)"

text \<open>The \<^verbatim>\<open>catch\<close> callback: \<open>runningQuery\<close> is left as it is.\<close>

definition query_catch :: "'r runner \<Rightarrow> 'r runner" where
  "query_catch s = subscriber_error s"

text \<open>
  \<^verbatim>\<open>subscription.unsubscribe()\<close>: rxjs closes the subscriber and runs the teardown
  function, \<^verbatim>\<open>subjectSubscription.unsubscribe()\<close>.
\<close>

definition unsubscribe :: "'r runner \<Rightarrow> 'r runner" where
  "unsubscribe s = s\<lparr>closed := True, attached := False\<rparr>"

text \<open>
  What can happen to a runner. A handler's promise can settle only while a \<^verbatim>\<open>next\<close> is
  suspended on it, a query's promise only while one is executing, and the subject completes
  or errors an observer only while it is registered: elsewhere the event cannot occur,
  which is \<open>None\<close>.
\<close>

datatype 'r runner_event =
    Change SubjectChangeEvent
  | HandlerResolved bool
  | HandlerRejected
  | QueryResolved 'r
  | QueryRejected
  | SubjectComplete
  | SubjectError
  | Unsubscribe

fun step :: "handler_map \<Rightarrow> 'r runner_event \<Rightarrow> 'r runner \<Rightarrow> 'r runner option" where
  "step hm (Change c) s = Some (on_change hm c s)"
| "step hm (HandlerResolved b) s =
     (if awaiting s = 0 then None
      else Some (after_handler b (s\<lparr>awaiting := awaiting s - 1\<rparr>)))"
| "step hm HandlerRejected s =
     (if awaiting s = 0 then None else Some (s\<lparr>awaiting := awaiting s - 1\<rparr>))"
| "step hm (QueryResolved r) s =
     (if executing s = 0 then None
      else Some (query_then r (s\<lparr>executing := executing s - 1\<rparr>)))"
| "step hm QueryRejected s =
     (if executing s = 0 then None
      else Some (query_catch (s\<lparr>executing := executing s - 1\<rparr>)))"
| "step hm SubjectComplete s = (if attached s then Some (subscriber_complete s) else None)"
| "step hm SubjectError s = (if attached s then Some (subscriber_error s) else None)"
| "step hm Unsubscribe s = Some (unsubscribe s)"

fun run :: "handler_map \<Rightarrow> 'r runner_event list \<Rightarrow> 'r runner \<Rightarrow> 'r runner option" where
  "run hm [] s = Some s"
| "run hm (e # es) s = (case step hm e s of None \<Rightarrow> None | Some s' \<Rightarrow> run hm es s')"

text \<open>Events other than the settling of the query's promise.\<close>

fun settles_query :: "'r runner_event \<Rightarrow> bool" where
  "settles_query (QueryResolved r) = True"
| "settles_query QueryRejected = True"
| "settles_query e = False"

text \<open>The state the source keeps consistent: an executing query is the recorded one.\<close>

definition in_flight_recorded :: "'r runner \<Rightarrow> bool" where
  "in_flight_recorded s \<longleftrightarrow> executing s = 0 \<or> (executing s = 1 \<and> runningQuery s)"

text \<open>
  The observable itself: every call of \<^verbatim>\<open>observable.subscribe\<close> runs the function given to
  \<^verbatim>\<open>new Observable\<close> again, so the observable is the list of the runners created so far.
  \<^verbatim>\<open>subject.next(change)\<close> calls the observer of each of them; every other event is a
  callback of one runner, which reads and writes the variables of its own closure.
\<close>

definition observable_subscribe :: "'r runner list \<Rightarrow> 'r runner list" where
  "observable_subscribe rs = rs @ [subscribe]"

definition subject_next :: "handler_map \<Rightarrow> SubjectChangeEvent \<Rightarrow> 'r runner list \<Rightarrow> 'r runner list" where
  "subject_next hm c rs = map (on_change hm c) rs"

definition at_runner ::
  "handler_map \<Rightarrow> nat \<Rightarrow> 'r runner_event \<Rightarrow> 'r runner list \<Rightarrow> 'r runner list option" where
  "at_runner hm i e rs =
     (if i < length rs
      then (case step hm e (rs ! i) of None \<Rightarrow> None | Some s' \<Rightarrow> Some (rs[i := s']))
      else None)"

section \<open>Concrete inputs\<close>

text \<open>The inputs of the repository's tests, used below to evaluate the definitions.\<close>

definition widgets_config :: config where
  "widgets_config =
     \<lparr>onlyIncludeTables = [''widgets''], primaryKeyMap = None, assumeSchema = None,
      slotId = ''1''\<rparr>"

definition two_schema_config :: config where
  "two_schema_config =
     \<lparr>onlyIncludeTables = [''widgets'', ''schema_two.widgets''], primaryKeyMap = None,
      assumeSchema = None, slotId = ''1''\<rparr>"

text \<open>The test with \<^verbatim>\<open>primaryKeyOverride = { widgets: ["id", "kind"] }\<close>.\<close>

definition widgets_override_config :: config where
  "widgets_override_config =
     \<lparr>onlyIncludeTables = [''widgets''],
      primaryKeyMap = Some [(''widgets'', [''id'', ''kind''])], assumeSchema = None,
      slotId = ''1''\<rparr>"

text \<open>
  Two delete records of \<^verbatim>\<open>widgets\<close>: one whose \<^verbatim>\<open>oldkeys\<close> carry the whole row (a table
  with replica identity full, or without an index), one whose \<^verbatim>\<open>oldkeys\<close> carry the primary
  key \<^verbatim>\<open>id\<close>.
\<close>

definition widgets_delete_pk :: WALChange where
  "widgets_delete_pk =
     WALDeleteChange ''public'' ''widgets''
       \<lparr>keynames = [''id''], keytypes = [''integer''], keyvalues = [JNum 7]\<rparr>"

definition widgets_delete_full :: WALChange where
  "widgets_delete_full =
     WALDeleteChange ''public'' ''widgets''
       \<lparr>keynames = [''id'', ''kind''], keytypes = [''integer'', ''text''],
        keyvalues = [JNum 7, JStr ''baseball'']\<rparr>"

text \<open>Two streams in one process, with the slots \<^verbatim>\<open>app_slot_a\<close> and \<^verbatim>\<open>app_slot_b\<close>.\<close>

definition two_streams :: "nat \<Rightarrow> config" where
  "two_streams sid = widgets_config\<lparr>slotId := (if sid = 0 then ''a'' else ''b'')\<rparr>"

definition slot_missing :: thrown where
  "slot_missing = JsError (Some ''42704'')"

definition live_stream :: resources where
  "live_stream =
     \<lparr>intervalActive = True, slotExists = True, clientReleased = False,
      subjectCompleted = False\<rparr>"

definition torn_down :: resources where
  "torn_down =
     \<lparr>intervalActive = False, slotExists = False, clientReleased = True,
      subjectCompleted = True\<rparr>"

text \<open>The handler map of the tests on \<^verbatim>\<open>cards\<close>: only \<^verbatim>\<open>insert\<close> has a handler.\<close>

definition cards_handlers :: handler_map where
  "cards_handlers = (\<lambda>t. if t = ''cards'' then Some (\<lambda>k. k = Insert) else None)"

definition card_insert :: SubjectChangeEvent where
  "card_insert = InsertEvent ''cards'' [(''kind'', JStr ''x'')]"

section \<open>Properties of the decoder\<close>

lemma keys_foldl_update:
  "set (map fst (foldl (\<lambda>obj (k, v). AList.update k v obj) acc ps)) =
     set (map fst acc) \<union> set (map fst ps)"
proof (induction ps arbitrary: acc)
  case Nil
  then show ?case by simp
next
  case (Cons p ps)
  obtain k v where p: "p = (k, v)" by (cases p)
  have "fst ` set (AList.update k v acc) = {k} \<union> fst ` set acc" by (rule dom_update)
  with Cons.IH [of "AList.update k v acc"] show ?case by (auto simp add: p)
qed

lemma keys_fromEntries: "keys_of (fromEntries ps) = set (map fst ps)"
  using keys_foldl_update [of "[]" ps] by (simp add: keys_of_def fromEntries_def)

lemma fst_pairs_of: "map fst (pairs_of names vs) = names"
proof -
  have "map fst (pairs_of names vs) = map snd (enumerate 0 names)"
    by (simp add: pairs_of_def split_def comp_def)
  then show ?thesis by simp
qed

lemma update_fresh: "k \<notin> fst ` set al \<Longrightarrow> AList.update k v al = al @ [(k, v)]"
  by (induction al) auto

lemma foldl_update_distinct:
  "distinct (map fst (acc @ ps)) \<Longrightarrow>
     foldl (\<lambda>obj (k, v). AList.update k v obj) acc ps = acc @ ps"
proof (induction ps arbitrary: acc)
  case Nil
  then show ?case by simp
next
  case (Cons p ps)
  obtain k v where p: "p = (k, v)" by (cases p)
  from Cons.prems p have fresh: "k \<notin> fst ` set acc" by auto
  from Cons.prems p have "distinct (map fst ((acc @ [(k, v)]) @ ps))" by auto
  from Cons.IH [OF this] show ?case by (simp add: p update_fresh [OF fresh])
qed

lemma fromEntries_distinct:
  "distinct names \<Longrightarrow> fromEntries (pairs_of names vs) = pairs_of names vs"
  using foldl_update_distinct [of "[]" "pairs_of names vs"]
  by (simp add: fromEntries_def fst_pairs_of)

text \<open>
  Every event carries \<open>tableKey\<close> of the record's table: the table alone in single-schema
  mode, and the stream's one \<open>schema\<close> before it otherwise.
\<close>

lemma table_of_event:
  "ev \<in> set (events_of_change cfg ch) \<Longrightarrow>
     \<exists>tbl. table ev = (if isUsingMultipleSchemas cfg then schema cfg @ ''.'' @ tbl else tbl)"
  by (cases ch) (auto simp: tableKey_def)

text \<open>
  Claim C5, as the code has it. A raw delete record is delivered as one delete event whose
  identity has exactly the columns named in the record's \<^verbatim>\<open>oldkeys.keynames\<close>, each with
  the value at its index in \<^verbatim>\<open>oldkeys.keyvalues\<close> (when no name comes twice), and
  \<^verbatim>\<open>primaryKeyMap\<close> has no influence on the event: the declared identity columns narrow the
  static type of \<^verbatim>\<open>identity\<close> only.
\<close>

theorem delete_identity_is_oldkeys:
  "\<exists>ident. events_of_change cfg (WALDeleteChange change_schema change_table oldkeys) =
             [DeleteEvent (tableKey cfg change_table) ident] \<and>
     keys_of ident = set (keynames oldkeys) \<and>
     (distinct (keynames oldkeys) \<longrightarrow> ident = pairs_of (keynames oldkeys) (keyvalues oldkeys)) \<and>
     events_of_change (cfg\<lparr>primaryKeyMap := pkm\<rparr>)
        (WALDeleteChange change_schema change_table oldkeys) =
     events_of_change cfg (WALDeleteChange change_schema change_table oldkeys)"
  by (simp add: keys_fromEntries fst_pairs_of fromEntries_distinct tableKey_def
      isUsingMultipleSchemas_def schema_def)

theorem delete_identity_is_oldkeys_witness:
  "distinct [''id'', ''kind''] \<and>
   events_of_change widgets_config widgets_delete_full =
     [DeleteEvent ''widgets'' [(''id'', JNum 7), (''kind'', JStr ''baseball'')]] \<and>
   keys_of [(''id'', JNum 7), (''kind'', JStr ''baseball'')] = {''id'', ''kind''}"
proof -
  let ?ks = "\<lparr>keynames = [''id'', ''kind''], keytypes = [''integer'', ''text''],
              keyvalues = [JNum 7, JStr ''baseball'']\<rparr>"
  from delete_identity_is_oldkeys [of widgets_config "''public''" "''widgets''" ?ks None]
  obtain ident where
    e: "events_of_change widgets_config (WALDeleteChange ''public'' ''widgets'' ?ks) =
          [DeleteEvent (tableKey widgets_config ''widgets'') ident]"
    and k: "keys_of ident = set (keynames ?ks)"
    and d: "distinct (keynames ?ks) \<longrightarrow> ident = pairs_of (keynames ?ks) (keyvalues ?ks)"
    by blast
  have t: "tableKey widgets_config ''widgets'' = ''widgets''"
    by (simp add: widgets_config_def tableKey_def isUsingMultipleSchemas_def includes_dot_def)
  from d have i: "ident = [(''id'', JNum 7), (''kind'', JStr ''baseball'')]"
    by (simp add: pairs_of_def at_index_def)
  from e k show ?thesis
    unfolding widgets_delete_full_def t i by simp
qed

text \<open>
  Claim C5 as stated fails, in both directions. With \<^verbatim>\<open>primaryKeyMap\<close> undefined the
  declared identity of \<^verbatim>\<open>widgets\<close> is the column \<^verbatim>\<open>id\<close> alone, and a delete record whose
  \<^verbatim>\<open>oldkeys\<close> name \<^verbatim>\<open>id\<close> and \<^verbatim>\<open>kind\<close> is delivered with both. With \<^verbatim>\<open>id\<close> and
  \<^verbatim>\<open>kind\<close> declared, a delete record whose \<^verbatim>\<open>oldkeys\<close> name \<^verbatim>\<open>id\<close> is delivered with
  \<^verbatim>\<open>id\<close> alone (the repository's test expects \<^verbatim>\<open>identity.kind\<close> to be undefined there).
\<close>

theorem delete_identity_not_narrowed:
  "events_of_change widgets_config widgets_delete_full =
     [DeleteEvent ''widgets'' [(''id'', JNum 7), (''kind'', JStr ''baseball'')]] \<and>
   declared_identity (primaryKeyMap widgets_config) ''widgets'' = [''id''] \<and>
   keys_of [(''id'', JNum 7), (''kind'', JStr ''baseball'')] \<noteq>
     set (declared_identity (primaryKeyMap widgets_config) ''widgets'') \<and>
   events_of_change widgets_override_config widgets_delete_pk =
     [DeleteEvent ''widgets'' [(''id'', JNum 7)]] \<and>
   declared_identity (primaryKeyMap widgets_override_config) ''widgets'' = [''id'', ''kind''] \<and>
   keys_of [(''id'', JNum 7)] \<noteq>
     set (declared_identity (primaryKeyMap widgets_override_config) ''widgets'')"
  by (simp add: widgets_config_def widgets_override_config_def widgets_delete_full_def
      widgets_delete_pk_def tableKey_def isUsingMultipleSchemas_def includes_dot_def
      fromEntries_def pairs_of_def at_index_def declared_identity_def keys_of_def)

text \<open>
  Claim C6, at the input where the code departs from it. With \<^verbatim>\<open>widgets\<close> and
  \<^verbatim>\<open>schema_two.widgets\<close> configured the stream is in multi-schema mode, and an insert into
  \<^verbatim>\<open>schema_two.widgets\<close> is delivered with the table \<^verbatim>\<open>public.widgets\<close>: the prefix is the
  stream's default schema, not the schema of the record.
\<close>

theorem multi_schema_table_uses_default_schema:
  "isUsingMultipleSchemas two_schema_config \<and>
   changeHandler two_schema_config
     [\<lparr>lsn = ''0/16B3748'',
       data = [WALInsertChange ''schema_two'' ''widgets'' [''id''] [''integer''] [JNum 1]]\<rparr>] =
   [InsertEvent ''public.widgets'' [(''id'', JNum 1)]]"
  by (simp add: two_schema_config_def changeHandler_def tableKey_def isUsingMultipleSchemas_def
      includes_dot_def schema_def fromEntries_def pairs_of_def at_index_def)

section \<open>Properties of the poller\<close>

lemmas poll_defs = init_world_def getChanges_def getChanges_catch_def resume_def finally_block_def
  instanceof_Error_def createSlot_catch_def publish_def toLsnData_def changeHandler_def
  slotName_def addTablesString_def join_def schema_def includes_dot_def

lemma unwind_flag:
  "currentlyGettingChanges (unwind sid enclosing out w) =
     (if enclosing = [] then currentlyGettingChanges w else False)"
proof (induction enclosing arbitrary: out w)
  case Nil
  then show ?case by simp
next
  case (Cons e enclosing)
  then show ?case by (simp add: finally_block_def)
qed

lemma unwind_settled: "length (settled (unwind sid enclosing out w)) = Suc (length (settled w))"
  by (induction enclosing arbitrary: out w) (simp_all add: finally_block_def)

lemma unwind_requests: "requests (unwind sid enclosing out w) = requests w"
  by (induction enclosing arbitrary: out w) (simp_all add: finally_block_def)

lemma unwind_finally_flag:
  "\<not> currentlyGettingChanges (unwind sid enclosing out (finally_block w))"
  by (simp add: unwind_flag finally_block_def)

lemma getChanges_catch_settles:
  "length (settled w) < length (settled (getChanges_catch cfgs c e w)) \<Longrightarrow>
     \<not> currentlyGettingChanges (getChanges_catch cfgs c e w)"
  by (auto simp: getChanges_catch_def unwind_finally_flag split: if_splits)

lemma nested_getChanges_settles:
  "length (settled w) < length (settled (getChanges cfgs sid (e # enclosing) w)) \<Longrightarrow>
     \<not> currentlyGettingChanges (getChanges cfgs sid (e # enclosing) w)"
  by (auto simp: getChanges_def unwind_flag finally_block_def split: if_splits)

lemma resume_settles:
  assumes "length (settled w) < length (settled (resume cfgs c resp w))"
  shows "\<not> currentlyGettingChanges (resume cfgs c resp w)"
proof (cases "phase c")
  case AwaitGetChanges
  show ?thesis
  proof (cases resp)
    case (Rows rows)
    show ?thesis
    proof (cases "map_toLsnData rows")
      case (Inl e)
      with assms AwaitGetChanges Rows show ?thesis
        using getChanges_catch_settles [of w cfgs c e] by (simp add: resume_def)
    next
      case (Inr changes)
      with AwaitGetChanges Rows show ?thesis
        by (simp add: resume_def unwind_finally_flag)
    qed
  next
    case (Throws e)
    with assms AwaitGetChanges show ?thesis
      using getChanges_catch_settles [of w cfgs c e] by (simp add: resume_def)
  qed
next
  case (AwaitCreateSlot e)
  show ?thesis
  proof (cases resp)
    case (Rows rows)
    let ?w = "w\<lparr>warnings := warnings w @
                 [''Recreated slot; retrying getChanges (no further output implies success)'']\<rparr>"
    from assms AwaitCreateSlot Rows
    have "length (settled ?w) < length (settled (getChanges cfgs (stream c) (e # outer c) ?w))"
      by (simp add: resume_def)
    from nested_getChanges_settles [OF this] AwaitCreateSlot Rows show ?thesis
      by (simp add: resume_def)
  next
    case (Throws e')
    with AwaitCreateSlot show ?thesis by (simp add: resume_def unwind_finally_flag)
  qed
qed

text \<open>The flag and the suspended calls agree in every state the process can reach.\<close>

lemma guard_held_init: "guard_held init_world"
  by (simp add: guard_held_def init_world_def)

lemma guard_held_resume:
  assumes "currentlyGettingChanges w" "calls w = []" "outer c = []"
  shows "guard_held (resume cfgs c resp w)"
  using assms
  by (auto simp: guard_held_def resume_def getChanges_def getChanges_catch_def finally_block_def
      publish_def split: phase.splits response.splits sum.splits)

lemma guard_held_step:
  assumes "guard_held w" "poll_step cfgs ev w = Some w'"
  shows "guard_held w'"
proof (cases ev)
  case (Tick sid)
  with assms show ?thesis by (auto simp: guard_held_def getChanges_def split: if_splits)
next
  case (Response k resp)
  with assms have k: "k < length (calls w)" by (simp split: if_splits)
  with assms(1) have f: "currentlyGettingChanges w" and l: "length (calls w) = 1"
    and o: "outer (hd (calls w)) = []"
    by (auto simp: guard_held_def split: if_splits)
  from k l have k0: "k = 0" by simp
  from l obtain c where c: "calls w = [c]" by (cases "calls w") auto
  let ?w = "w\<lparr>calls := take k (calls w) @ drop (Suc k) (calls w)\<rparr>"
  from assms(2) Response k have w': "w' = resume cfgs (calls w ! k) resp ?w" by simp
  have "guard_held (resume cfgs c resp ?w)"
    using f c o k0 by (intro guard_held_resume) simp_all
  with w' c k0 show ?thesis by simp
qed

lemma guard_held_run:
  "guard_held w \<Longrightarrow> poll_run cfgs es w = Some w' \<Longrightarrow> guard_held w'"
proof (induction es arbitrary: w)
  case Nil
  then show ?case by simp
next
  case (Cons e es)
  then show ?case by (auto split: option.splits dest: guard_held_step)
qed

text \<open>
  The retry of the recovery path in general: whenever \<^verbatim>\<open>createSlot\<close> has succeeded while the
  flag is set, the nested call returns at the guard, no statement is sent, and the call ends
  rejected.
\<close>

lemma retry_after_createSlot:
  assumes "currentlyGettingChanges w" "phase c = AwaitCreateSlot e"
  shows "requests (resume cfgs c (Rows rows) w) = requests w \<and>
         length (settled (resume cfgs c (Rows rows) w)) = Suc (length (settled w))"
  using assms by (simp add: resume_def getChanges_def unwind_requests unwind_settled finally_block_def)

text \<open>
  So in every run of the process, for every stream: when \<^verbatim>\<open>createSlot\<close> succeeds in the
  recovery path, no statement follows and the poll ends rejected with the error it caught.
\<close>

lemma recovery_never_retries:
  assumes "poll_run cfgs es init_world = Some w"
    and "k < length (calls w)" "phase (calls w ! k) = AwaitCreateSlot e"
    and "poll_step cfgs (Response k (Rows rows)) w = Some w'"
  shows "requests w' = requests w \<and>
         settled w' = settled w @ [(stream (calls w ! k), Rejected e)] \<and>
         \<not> currentlyGettingChanges w'"
proof -
  from guard_held_run [OF guard_held_init assms(1)] have g: "guard_held w" .
  with assms(2) have f: "currentlyGettingChanges w" and l: "length (calls w) = 1"
    and o: "outer (hd (calls w)) = []"
    by (auto simp: guard_held_def split: if_splits)
  from l obtain c where c: "calls w = [c]" by (cases "calls w") auto
  with assms(2) have k0: "k = 0" by simp
  from assms(3,4) c k0 o f show ?thesis
    by (auto simp add: resume_def getChanges_def finally_block_def)
qed

text \<open>
  Claim C3, at the input where the code departs from it. The timer of stream 0 fires, the
  statement fails with code 42704, and \<^verbatim>\<open>createSlot\<close> succeeds. The slot has been created
  again on the same client and both warnings are printed, but the only
  \<^verbatim>\<open>pg_logical_slot_get_changes\<close> statement ever sent is the one that failed (the retry
  returns at the guard, since the flag is still set), and the call ends rejected with the
  42704 error (\<^verbatim>\<open>throw e\<close> follows the recovery). Nothing reaches the subject.
\<close>

theorem retry_is_refused_by_guard:
  "poll_run two_streams
     [Tick 0, Response 0 (Throws slot_missing), Response 0 (Rows [])] init_world =
   Some \<lparr>currentlyGettingChanges = False, calls = [],
         requests = [(0, GetChanges ''app_slot_a'' ''public.widgets''),
                     (0, CreateSlot ''app_slot_a'')],
         published = [], settled = [(0, Rejected slot_missing)],
         warnings = [''Replication slot went away?'',
           ''Recreated slot; retrying getChanges (no further output implies success)'']\<rparr>"
  by (simp add: poll_defs two_streams_def widgets_config_def slot_missing_def)

text \<open>
  Claim C7, at the input where the code departs from it. Alone, a tick of stream 1 sends
  its statement. After a tick of stream 0 whose statement is not answered yet, the tick of
  stream 1 returns at the guard: nothing is sent for stream 1, because the flag that stream 0
  has set is the one that stream 1 reads.
\<close>

theorem other_stream_tick_is_skipped:
  "poll_run two_streams [Tick 1] init_world =
     Some \<lparr>currentlyGettingChanges = True,
           calls = [\<lparr>stream = 1, outer = [], phase = AwaitGetChanges\<rparr>],
           requests = [(1, GetChanges ''app_slot_b'' ''public.widgets'')],
           published = [], settled = [], warnings = []\<rparr> \<and>
   poll_run two_streams [Tick 0, Tick 1] init_world =
     Some \<lparr>currentlyGettingChanges = True,
           calls = [\<lparr>stream = 0, outer = [], phase = AwaitGetChanges\<rparr>],
           requests = [(0, GetChanges ''app_slot_a'' ''public.widgets'')],
           published = [], settled = [(1, Resolved)], warnings = []\<rparr>"
  by (simp add: poll_defs two_streams_def widgets_config_def)

text \<open>
  Claim C9, as the code has it. Whenever a call of \<^verbatim>\<open>getChanges\<close> ends, the flag is false
  afterwards if the call had passed the guard (it ends when a statement is answered: with
  rows, with an error, or after the 42704 recovery), and is left as it was if the guard
  refused the call (it ends at the timer's tick itself). So after the end of a call that had
  passed the guard, the next tick of any stream sends its statement.
\<close>

theorem flag_reset_when_call_settles:
  assumes "poll_step cfgs ev w = Some w'"
    and "length (settled w) < length (settled w')"
  shows "currentlyGettingChanges w' =
           (case ev of Tick sid \<Rightarrow> currentlyGettingChanges w | Response k resp \<Rightarrow> False) \<and>
         (\<not> currentlyGettingChanges w' \<longrightarrow>
            requests (getChanges cfgs sid' [] w') =
              requests w' @
                [(sid', GetChanges (slotName (cfgs sid')) (addTablesString (cfgs sid')))])"
proof (cases ev)
  case (Tick sid)
  with assms show ?thesis by (auto simp: getChanges_def split: if_splits)
next
  case (Response k resp)
  let ?w = "w\<lparr>calls := take k (calls w) @ drop (Suc k) (calls w)\<rparr>"
  from assms Response have w': "w' = resume cfgs (calls w ! k) resp ?w"
    by (simp split: if_splits)
  with assms(2) have "length (settled ?w) < length (settled (resume cfgs (calls w ! k) resp ?w))"
    by simp
  from resume_settles [OF this] w' Response show ?thesis by (simp add: getChanges_def)
qed

theorem flag_reset_when_call_settles_witness:
  "\<exists>w w'. poll_run two_streams [Tick 0, Response 0 (Throws slot_missing)] init_world = Some w \<and>
     poll_step two_streams (Response 0 (Rows [])) w = Some w' \<and>
     length (settled w) < length (settled w') \<and> \<not> currentlyGettingChanges w' \<and>
     requests (getChanges two_streams 1 [] w') =
       requests w' @ [(1, GetChanges ''app_slot_b'' ''public.widgets'')]"
proof -
  have "\<exists>w. poll_run two_streams [Tick 0, Response 0 (Throws slot_missing)] init_world = Some w"
    by (simp add: poll_defs two_streams_def widgets_config_def slot_missing_def)
  then obtain w
    where w: "poll_run two_streams [Tick 0, Response 0 (Throws slot_missing)] init_world = Some w" ..
  then have "\<exists>w'. poll_step two_streams (Response 0 (Rows [])) w = Some w'
      \<and> length (settled w) < length (settled w')"
    by (auto simp add: poll_defs two_streams_def widgets_config_def slot_missing_def)
  then obtain w' where w': "poll_step two_streams (Response 0 (Rows [])) w = Some w'"
    and l: "length (settled w) < length (settled w')" by blast
  have n: "slotName (two_streams 1) = ''app_slot_b''"
          "addTablesString (two_streams 1) = ''public.widgets''"
    by (simp_all add: poll_defs two_streams_def widgets_config_def)
  from flag_reset_when_call_settles [OF w' l, of 1] w w' l show ?thesis
    unfolding n by (auto simp del: poll_step.simps poll_run.simps)
qed

text \<open>
  Claim C9 as stated fails: a second tick while the first call waits for its rows is a
  call of \<^verbatim>\<open>getChanges\<close> that ends (it returns normally, at the guard) and leaves the flag
  true.
\<close>

theorem skipped_call_leaves_flag_set:
  "poll_run two_streams [Tick 0] init_world =
     Some \<lparr>currentlyGettingChanges = True,
           calls = [\<lparr>stream = 0, outer = [], phase = AwaitGetChanges\<rparr>],
           requests = [(0, GetChanges ''app_slot_a'' ''public.widgets'')],
           published = [], settled = [], warnings = []\<rparr> \<and>
   poll_run two_streams [Tick 0, Tick 0] init_world =
     Some \<lparr>currentlyGettingChanges = True,
           calls = [\<lparr>stream = 0, outer = [], phase = AwaitGetChanges\<rparr>],
           requests = [(0, GetChanges ''app_slot_a'' ''public.widgets'')],
           published = [], settled = [(0, Resolved)], warnings = []\<rparr>"
  by (simp add: poll_defs two_streams_def widgets_config_def)

section \<open>Properties of teardown\<close>

text \<open>
  Claim C8, as the code has it. The first \<^verbatim>\<open>teardown\<close> of a stream whose client is held
  succeeds and leaves the timer cleared, the slot dropped, the client released and the
  subject completed. A second call finds the slot gone, which \<^verbatim>\<open>dropSlot\<close> swallows, and
  leaves that state as it is; but it calls \<^verbatim>\<open>client.release()\<close> again, and the error of the
  driver is thrown to the caller.
\<close>

theorem teardown_twice:
  assumes "\<not> clientReleased st"
  shows "teardown st = (Inr (), torn_down) \<and>
         dropSlot torn_down = torn_down \<and>
         teardown torn_down = (Inl (JsError None), torn_down)"
  using assms
  by (cases st)
    (simp add: teardown_def dropSlot_def pg_drop_replication_slot_def client_release_def
      torn_down_def Let_def)

theorem teardown_twice_witness:
  "\<not> clientReleased live_stream \<and>
   teardown live_stream = (Inr (), torn_down) \<and>
   teardown torn_down = (Inl (JsError None), torn_down)"
proof -
  have n: "\<not> clientReleased live_stream" by (simp add: live_stream_def)
  from teardown_twice [OF n] n show ?thesis by simp
qed

text \<open>
  Claim C8 as stated fails: the second \<^verbatim>\<open>teardown\<close> of a live stream does not succeed.
\<close>

theorem second_teardown_throws:
  "fst (teardown live_stream) = Inr () \<and>
   fst (teardown (snd (teardown live_stream))) = Inl (JsError None) \<and>
   fst (teardown (snd (teardown live_stream))) \<noteq> Inr ()"
  by (simp add: teardown_def dropSlot_def pg_drop_replication_slot_def client_release_def
      live_stream_def Let_def)

section \<open>Properties of the runner\<close>

lemmas runner_defs = runQueryAndCallNextIfExists_def subscriber_next_def subscriber_error_def
  subscriber_complete_def on_change_def after_handler_def query_then_def query_catch_def
  unsubscribe_def

lemma step_in_flight_recorded:
  "in_flight_recorded s \<Longrightarrow> step hm e s = Some s' \<Longrightarrow> in_flight_recorded s'"
  by (cases e) (auto simp: in_flight_recorded_def runner_defs Let_def split: if_splits option.splits)

lemma run_in_flight_recorded:
  "in_flight_recorded s \<Longrightarrow> run hm es s = Some s' \<Longrightarrow> in_flight_recorded s'"
proof (induction es arbitrary: s)
  case Nil
  then show ?case by simp
next
  case (Cons e es)
  then show ?case by (auto split: option.splits dest: step_in_flight_recorded)
qed

lemma subscribe_in_flight_recorded: "in_flight_recorded subscribe"
  by (simp add: in_flight_recorded_def subscribe_def runQueryAndCallNextIfExists_def)

text \<open>
  Claim C2. After any sequence of events that can happen to a runner since its
  subscription (changes delivered, handlers and queries settling in any order, the subject
  ending, the subscriber leaving), at most one \<^verbatim>\<open>query()\<close> is executing. Every prefix of
  such a sequence is one too, so the bound holds at every moment of the run; several
  changes delivered while handlers are still awaited are sequences like any other.
\<close>

theorem at_most_one_in_flight:
  "run hm es subscribe = Some s \<Longrightarrow> executing s \<le> 1"
  using run_in_flight_recorded [OF subscribe_in_flight_recorded, of hm es s]
  by (auto simp: in_flight_recorded_def)

theorem at_most_one_in_flight_witness:
  "\<exists>s. run cards_handlers
         [Change card_insert, Change card_insert, HandlerResolved True, QueryResolved (1::nat),
          HandlerResolved True, QueryResolved 2] subscribe = Some s \<and> executing s \<le> 1"
proof -
  have "\<exists>s. run cards_handlers
         [Change card_insert, Change card_insert, HandlerResolved True, QueryResolved (1::nat),
          HandlerResolved True, QueryResolved 2] subscribe = Some s"
    by (simp add: subscribe_def cards_handlers_def card_insert_def runner_defs Let_def)
  then obtain s where r: "run cards_handlers
         [Change card_insert, Change card_insert, HandlerResolved True, QueryResolved (1::nat),
          HandlerResolved True, QueryResolved 2] subscribe = Some s" ..
  from at_most_one_in_flight [OF r] r show ?thesis by blast
qed

lemma step_while_running:
  assumes "runningQuery s" "executing s = 1" "\<not> settles_query e" "step hm e s = Some s'"
  shows "runningQuery s' \<and> executing s' = 1 \<and> queryCalls s' = queryCalls s \<and>
         (queueNextQuery s \<or> e = HandlerResolved True) = queueNextQuery s'"
  using assms
  by (cases e) (auto simp: runner_defs Let_def split: if_splits option.splits)

lemma run_while_running:
  assumes "runningQuery s" "executing s = 1" "list_all (\<lambda>e. \<not> settles_query e) es"
    "run hm es s = Some s'"
  shows "runningQuery s' \<and> executing s' = 1 \<and> queryCalls s' = queryCalls s \<and>
         (queueNextQuery s \<or> HandlerResolved True \<in> set es) = queueNextQuery s'"
  using assms
proof (induction es arbitrary: s)
  case Nil
  then show ?case by simp
next
  case (Cons e es)
  from Cons.prems obtain s1 where s1: "step hm e s = Some s1" and r: "run hm es s1 = Some s'"
    by (auto split: option.splits)
  from Cons.prems have ne: "\<not> settles_query e" and rest: "list_all (\<lambda>e. \<not> settles_query e) es"
    by simp_all
  note st = step_while_running [OF Cons.prems(1,2) ne s1]
  from Cons.IH [OF _ _ rest r] st show ?case by auto
qed

text \<open>
  Claim C1. An invalidation arrives when the runner applies it, that is when the awaited
  handler has answered true (\<open>HandlerResolved True\<close>). Let a query be in flight, and let
  \<open>es\<close> be what happens before its promise settles: any events, \<open>N \<ge> 1\<close> of them
  invalidations. Then no \<^verbatim>\<open>query()\<close> is called during \<open>es\<close>; when the run in flight
  resolves, exactly one more \<^verbatim>\<open>query()\<close> is called and nothing stays queued; and when that
  follow-up resolves without a new invalidation, no further one is called.
\<close>

theorem invalidations_coalesce:
  assumes "runningQuery s" "executing s = 1"
    and "list_all (\<lambda>e. \<not> settles_query e) es"
    and "count_list es (HandlerResolved True) = N" "1 \<le> N"
    and "run hm es s = Some s'"
  shows "queryCalls s' = queryCalls s \<and> executing s' = 1 \<and>
    (\<exists>s2. step hm (QueryResolved r) s' = Some s2 \<and>
       queryCalls s2 = Suc (queryCalls s) \<and> executing s2 = 1 \<and>
       runningQuery s2 \<and> \<not> queueNextQuery s2 \<and>
       (\<exists>s3. step hm (QueryResolved r') s2 = Some s3 \<and>
          queryCalls s3 = Suc (queryCalls s) \<and> executing s3 = 0 \<and> \<not> runningQuery s3))"
proof -
  from assms(4,5) have "HandlerResolved True \<in> set es"
    by (metis count_list_0_iff not_one_le_zero)
  with run_while_running [OF assms(1,2,3,6)]
  have *: "runningQuery s'" "executing s' = 1" "queryCalls s' = queryCalls s" "queueNextQuery s'"
    by auto
  then show ?thesis
    by (simp add: runner_defs Let_def)
qed

theorem invalidations_coalesce_witness:
  "\<exists>s'. run cards_handlers
       [Change card_insert, Change card_insert, HandlerResolved True, HandlerResolved True]
       (subscribe :: nat runner) = Some s' \<and>
     queryCalls s' = 1 \<and> executing s' = 1 \<and>
     (\<exists>s2. step cards_handlers (QueryResolved 5) s' = Some s2 \<and>
        queryCalls s2 = 2 \<and> executing s2 = 1 \<and> runningQuery s2 \<and> \<not> queueNextQuery s2 \<and>
        (\<exists>s3. step cards_handlers (QueryResolved 6) s2 = Some s3 \<and>
           queryCalls s3 = 2 \<and> executing s3 = 0 \<and> \<not> runningQuery s3))"
proof -
  let ?es = "[Change card_insert, Change card_insert, HandlerResolved True, HandlerResolved True]
               :: nat runner_event list"
  have "\<exists>s'. run cards_handlers ?es (subscribe :: nat runner) = Some s'"
    by (simp add: subscribe_def cards_handlers_def card_insert_def runner_defs Let_def)
  then obtain s' where r: "run cards_handlers ?es (subscribe :: nat runner) = Some s'" ..
  have a: "runningQuery (subscribe :: nat runner)" "executing (subscribe :: nat runner) = 1"
       "queryCalls (subscribe :: nat runner) = 1"
    by (simp_all add: subscribe_def runQueryAndCallNextIfExists_def)
  have b: "list_all (\<lambda>e. \<not> settles_query e) ?es" by simp
  have c: "count_list ?es (HandlerResolved True) = 2" by simp
  from invalidations_coalesce [OF a(1,2) b c _ r, of 5 6] r a(3) show ?thesis
    by (auto simp del: step.simps run.simps simp: numeral_2_eq_2)
qed

text \<open>
  What does hold after \<^verbatim>\<open>unsubscribe()\<close>: whatever happens, the subscriber receives
  nothing more and no handler is called again.
\<close>

lemma step_after_unsubscribe:
  "closed s \<Longrightarrow> \<not> attached s \<Longrightarrow> step hm e s = Some s' \<Longrightarrow>
     closed s' \<and> \<not> attached s' \<and> delivered s' = delivered s \<and> handlerCalls s' = handlerCalls s"
  by (cases e) (auto simp: runner_defs Let_def split: if_splits option.splits)

lemma run_after_unsubscribe:
  "closed s \<Longrightarrow> \<not> attached s \<Longrightarrow> run hm es s = Some s' \<Longrightarrow>
     delivered s' = delivered s \<and> handlerCalls s' = handlerCalls s"
proof (induction es arbitrary: s)
  case Nil
  then show ?case by simp
next
  case (Cons e es)
  from Cons.prems obtain s1 where s1: "step hm e s = Some s1" and r: "run hm es s1 = Some s'"
    by (auto split: option.splits)
  from step_after_unsubscribe [OF Cons.prems(1,2) s1] Cons.IH [OF _ _ r] show ?case by simp
qed

text \<open>
  Claim C4, at the inputs where the code departs from it. A follow-up is queued, the
  subscriber unsubscribes (one \<^verbatim>\<open>query()\<close> has been called so far), and the run in flight
  resolves: the subscriber receives nothing, but the \<^verbatim>\<open>then\<close> callback still finds
  \<open>queueNextQuery\<close> set and calls \<^verbatim>\<open>query()\<close> a second time. Likewise a handler that is still
  awaited at the time of \<^verbatim>\<open>unsubscribe()\<close> and answers true afterwards starts a run.
\<close>

theorem queued_follow_up_starts_after_unsubscribe:
  "run cards_handlers [Change card_insert, HandlerResolved True, Unsubscribe] subscribe =
     Some \<lparr>runningQuery = True, queueNextQuery = True, lastResult = (None :: nat option),
           executing = 1, awaiting = 0, queryCalls = 1, handlerCalls = 1, delivered = [],
           closed = True, attached = False\<rparr> \<and>
   run cards_handlers [Change card_insert, HandlerResolved True, Unsubscribe, QueryResolved 0]
       subscribe =
     Some \<lparr>runningQuery = True, queueNextQuery = False, lastResult = Some (0 :: nat),
           executing = 1, awaiting = 0, queryCalls = 2, handlerCalls = 1, delivered = [],
           closed = True, attached = False\<rparr> \<and>
   run cards_handlers [QueryResolved 0, Change card_insert, Unsubscribe, HandlerResolved True]
       subscribe =
     Some \<lparr>runningQuery = True, queueNextQuery = False, lastResult = Some (0 :: nat),
           executing = 1, awaiting = 0, queryCalls = 2, handlerCalls = 1, delivered = [Next 0],
           closed = True, attached = False\<rparr>"
  by (simp add: subscribe_def cards_handlers_def card_insert_def runner_defs Let_def)

lemma subscribe_k: "(observable_subscribe ^^ k) rs = rs @ replicate k subscribe"
proof (induction k)
  case 0
  then show ?case by simp
next
  case (Suc k)
  then show ?case by (simp add: observable_subscribe_def replicate_append_same)
qed

text \<open>
  Claim C10. After \<open>k\<close> calls of \<^verbatim>\<open>subscribe\<close> there are \<open>k\<close> runners, each with
  variables of its own in the state that the function given to \<^verbatim>\<open>new Observable\<close> leaves:
  no result yet, nothing queued, registered with the subject, one \<^verbatim>\<open>query()\<close> called and
  executing; so \<open>k\<close> subscribers mean \<open>k\<close> initial calls, all in flight at once. A change
  that has a handler reaches the observer of every runner, and each calls the handler for
  itself. The coalescing state is not shared: when the handler of runner \<open>i\<close> answers true,
  runner \<open>i\<close> queues a follow-up and runner \<open>j\<close> does not; when the query of runner \<open>i\<close>
  resolves, runner \<open>i\<close> keeps the result, delivers it to its subscriber and starts its
  follow-up, while runner \<open>j\<close> has received nothing and still waits for its own first run;
  when the handler of runner \<open>j\<close> answers true afterwards, runner \<open>j\<close> queues behind its
  own run. Unsubscribing runner \<open>i\<close> leaves runner \<open>j\<close> registered. In general, subscribing
  leaves the runners that exist as they are, and a callback of one runner changes no
  other.
\<close>

theorem cold_per_subscriber:
  assumes "hm (table c) = Some h" "h (event c)"
    and "i < k" "j < k" "j \<noteq> i"
  shows
   "length ((observable_subscribe ^^ k) ([] :: 'r runner list)) = k \<and>
    (observable_subscribe ^^ k) [] ! j =
      \<lparr>runningQuery = True, queueNextQuery = False, lastResult = (None :: 'r option),
       executing = 1, awaiting = 0, queryCalls = 1, handlerCalls = 0, delivered = [],
       closed = False, attached = True\<rparr> \<and>
    sum_list (map queryCalls ((observable_subscribe ^^ k) ([] :: 'r runner list))) = k \<and>
    sum_list (map executing ((observable_subscribe ^^ k) ([] :: 'r runner list))) = k \<and>
    (\<exists>rs1 rs2 rs3 rs4.
       rs1 = subject_next hm c ((observable_subscribe ^^ k) ([] :: 'r runner list)) \<and>
       rs1 ! i =
         \<lparr>runningQuery = True, queueNextQuery = False, lastResult = None,
          executing = 1, awaiting = 1, queryCalls = 1, handlerCalls = 1, delivered = [],
          closed = False, attached = True\<rparr> \<and>
       rs1 ! j = rs1 ! i \<and>
       at_runner hm i (HandlerResolved True) rs1 = Some rs2 \<and>
       rs2 ! i =
         \<lparr>runningQuery = True, queueNextQuery = True, lastResult = None,
          executing = 1, awaiting = 0, queryCalls = 1, handlerCalls = 1, delivered = [],
          closed = False, attached = True\<rparr> \<and>
       rs2 ! j = rs1 ! j \<and>
       at_runner hm i (QueryResolved r) rs2 = Some rs3 \<and>
       rs3 ! i =
         \<lparr>runningQuery = True, queueNextQuery = False, lastResult = Some r,
          executing = 1, awaiting = 0, queryCalls = 2, handlerCalls = 1, delivered = [Next r],
          closed = False, attached = True\<rparr> \<and>
       rs3 ! j = rs1 ! j \<and>
       at_runner hm j (HandlerResolved True) rs3 = Some rs4 \<and>
       rs4 ! j =
         \<lparr>runningQuery = True, queueNextQuery = True, lastResult = None,
          executing = 1, awaiting = 0, queryCalls = 1, handlerCalls = 1, delivered = [],
          closed = False, attached = True\<rparr> \<and>
       rs4 ! i = rs3 ! i) \<and>
    (\<exists>rsu. at_runner hm i Unsubscribe ((observable_subscribe ^^ k) ([] :: 'r runner list)) =
             Some rsu \<and>
       \<not> attached (rsu ! i) \<and> attached (rsu ! j) \<and>
       handlerCalls (subject_next hm c rsu ! i) = 0 \<and>
       handlerCalls (subject_next hm c rsu ! j) = 1) \<and>
    (observable_subscribe ^^ k) rs = (rs :: 'r runner list) @ replicate k subscribe \<and>
    (at_runner hm i' e rs = Some rs' \<and> j' \<noteq> i' \<longrightarrow>
       length rs' = length rs \<and> rs' ! j' = rs ! j') \<and>
    (j' < length rs \<longrightarrow> subject_next hm c' rs ! j' = on_change hm c' (rs ! j'))"
proof -
  let ?rs0 = "(observable_subscribe ^^ k) ([] :: 'r runner list)"
  have eq: "?rs0 = replicate k subscribe" by (simp add: subscribe_k)
  have fresh: "length ?rs0 = k \<and>
    ?rs0 ! j =
      \<lparr>runningQuery = True, queueNextQuery = False, lastResult = (None :: 'r option),
       executing = 1, awaiting = 0, queryCalls = 1, handlerCalls = 0, delivered = [],
       closed = False, attached = True\<rparr> \<and>
    sum_list (map queryCalls ?rs0) = k \<and> sum_list (map executing ?rs0) = k"
    unfolding eq using assms
    by (simp add: subscribe_def runQueryAndCallNextIfExists_def sum_list_replicate)
  have scenario: "\<exists>rs1 rs2 rs3 rs4.
       rs1 = subject_next hm c ?rs0 \<and>
       rs1 ! i =
         \<lparr>runningQuery = True, queueNextQuery = False, lastResult = None,
          executing = 1, awaiting = 1, queryCalls = 1, handlerCalls = 1, delivered = [],
          closed = False, attached = True\<rparr> \<and>
       rs1 ! j = rs1 ! i \<and>
       at_runner hm i (HandlerResolved True) rs1 = Some rs2 \<and>
       rs2 ! i =
         \<lparr>runningQuery = True, queueNextQuery = True, lastResult = None,
          executing = 1, awaiting = 0, queryCalls = 1, handlerCalls = 1, delivered = [],
          closed = False, attached = True\<rparr> \<and>
       rs2 ! j = rs1 ! j \<and>
       at_runner hm i (QueryResolved r) rs2 = Some rs3 \<and>
       rs3 ! i =
         \<lparr>runningQuery = True, queueNextQuery = False, lastResult = Some r,
          executing = 1, awaiting = 0, queryCalls = 2, handlerCalls = 1, delivered = [Next r],
          closed = False, attached = True\<rparr> \<and>
       rs3 ! j = rs1 ! j \<and>
       at_runner hm j (HandlerResolved True) rs3 = Some rs4 \<and>
       rs4 ! j =
         \<lparr>runningQuery = True, queueNextQuery = True, lastResult = None,
          executing = 1, awaiting = 0, queryCalls = 1, handlerCalls = 1, delivered = [],
          closed = False, attached = True\<rparr> \<and>
       rs4 ! i = rs3 ! i"
    unfolding eq using assms
    by (simp add: subject_next_def at_runner_def subscribe_def runner_defs Let_def)
  have unsub: "\<exists>rsu. at_runner hm i Unsubscribe ?rs0 = Some rsu \<and>
       \<not> attached (rsu ! i) \<and> attached (rsu ! j) \<and>
       handlerCalls (subject_next hm c rsu ! i) = 0 \<and>
       handlerCalls (subject_next hm c rsu ! j) = 1"
    unfolding eq using assms
    by (simp add: subject_next_def at_runner_def subscribe_def runner_defs Let_def)
  have general:
    "(observable_subscribe ^^ k) rs = rs @ replicate k subscribe \<and>
     (at_runner hm i' e rs = Some rs' \<and> j' \<noteq> i' \<longrightarrow>
        length rs' = length rs \<and> rs' ! j' = rs ! j') \<and>
     (j' < length rs \<longrightarrow> subject_next hm c' rs ! j' = on_change hm c' (rs ! j'))"
    by (auto simp: subscribe_k at_runner_def subject_next_def split: if_splits option.splits)
  from fresh scenario unsub general show ?thesis by blast
qed

theorem cold_per_subscriber_witness:
  "(\<exists>h. cards_handlers (table card_insert) = Some h \<and> h (event card_insert)) \<and>
   (observable_subscribe ^^ 2) [] ! 1 =
      \<lparr>runningQuery = True, queueNextQuery = False, lastResult = (None :: nat option),
       executing = 1, awaiting = 0, queryCalls = 1, handlerCalls = 0, delivered = [],
       closed = False, attached = True\<rparr> \<and>
   sum_list (map executing ((observable_subscribe ^^ 2) ([] :: nat runner list))) = 2 \<and>
   (\<exists>rs2 rs3.
      at_runner cards_handlers 0 (HandlerResolved True)
        (subject_next cards_handlers card_insert ((observable_subscribe ^^ 2) [])) = Some rs2 \<and>
      queueNextQuery (rs2 ! 0) \<and> \<not> queueNextQuery (rs2 ! 1) \<and>
      at_runner cards_handlers 0 (QueryResolved (5 :: nat)) rs2 = Some rs3 \<and>
      delivered (rs3 ! 0) = [Next 5] \<and> queryCalls (rs3 ! 0) = 2 \<and>
      delivered (rs3 ! 1) = [] \<and> queryCalls (rs3 ! 1) = 1 \<and> handlerCalls (rs3 ! 1) = 1)"
proof -
  have h1: "cards_handlers (table card_insert) = Some (\<lambda>k. k = Insert)"
    by (simp add: cards_handlers_def card_insert_def)
  have h2: "(\<lambda>k. k = Insert) (event card_insert)"
    by (simp add: card_insert_def)
  have n: "(0::nat) < 2" "(1::nat) < 2" "(1::nat) \<noteq> 0" by simp_all
  note t = cold_per_subscriber [where ?'r = nat and hm = cards_handlers and c = card_insert
      and h = "\<lambda>k. k = Insert" and i = 0 and j = 1 and k = 2 and r = 5, OF h1 h2 n]
  from t [THEN conjunct2, THEN conjunct1]
  have a: "(observable_subscribe ^^ 2) [] ! 1 =
      \<lparr>runningQuery = True, queueNextQuery = False, lastResult = (None :: nat option),
       executing = 1, awaiting = 0, queryCalls = 1, handlerCalls = 0, delivered = [],
       closed = False, attached = True\<rparr>" .
  from t [THEN conjunct2, THEN conjunct2, THEN conjunct2, THEN conjunct1]
  have b: "sum_list (map executing ((observable_subscribe ^^ 2) ([] :: nat runner list))) = 2" .
  from t [THEN conjunct2, THEN conjunct2, THEN conjunct2, THEN conjunct2, THEN conjunct1]
  obtain rs1 rs2 rs3 :: "nat runner list" where
    r1: "rs1 = subject_next cards_handlers card_insert ((observable_subscribe ^^ 2) [])"
    and r1i: "rs1 ! 0 =
         \<lparr>runningQuery = True, queueNextQuery = False, lastResult = None,
          executing = 1, awaiting = 1, queryCalls = 1, handlerCalls = 1, delivered = [],
          closed = False, attached = True\<rparr>"
    and r1j: "rs1 ! 1 = rs1 ! 0"
    and s2: "at_runner cards_handlers 0 (HandlerResolved True) rs1 = Some rs2"
    and r2i: "rs2 ! 0 =
         \<lparr>runningQuery = True, queueNextQuery = True, lastResult = None,
          executing = 1, awaiting = 0, queryCalls = 1, handlerCalls = 1, delivered = [],
          closed = False, attached = True\<rparr>"
    and r2j: "rs2 ! 1 = rs1 ! 1"
    and s3: "at_runner cards_handlers 0 (QueryResolved 5) rs2 = Some rs3"
    and r3i: "rs3 ! 0 =
         \<lparr>runningQuery = True, queueNextQuery = False, lastResult = Some 5,
          executing = 1, awaiting = 0, queryCalls = 2, handlerCalls = 1, delivered = [Next 5],
          closed = False, attached = True\<rparr>"
    and r3j: "rs3 ! 1 = rs1 ! 1"
    by blast
  have c: "at_runner cards_handlers 0 (HandlerResolved True)
        (subject_next cards_handlers card_insert ((observable_subscribe ^^ 2) [])) = Some rs2 \<and>
      queueNextQuery (rs2 ! 0) \<and> \<not> queueNextQuery (rs2 ! 1) \<and>
      at_runner cards_handlers 0 (QueryResolved (5 :: nat)) rs2 = Some rs3 \<and>
      delivered (rs3 ! 0) = [Next 5] \<and> queryCalls (rs3 ! 0) = 2 \<and>
      delivered (rs3 ! 1) = [] \<and> queryCalls (rs3 ! 1) = 1 \<and> handlerCalls (rs3 ! 1) = 1"
    using s2 s3 unfolding r1 [symmetric] r2i r2j r3i r3j r1j r1i by simp
  from h1 h2 a b c show ?thesis by blast
qed

end
